theory Spec2Isabelle
  imports Complex_Main
begin

section \<open>JavaScript strings\<close>

text \<open>
  A JavaScript string is a sequence of UTF-16 code units. Every non-ASCII character that
  \<open>ProviderNetease.js\<close> mentions lies in the Basic Multilingual Plane, so it is one code
  unit, written below by its number. ASCII literals are written \<open>js ''...''\<close>.
\<close>

type_synonym jschar = nat
type_synonym jsstring = "jschar list"

definition js :: "string \<Rightarrow> jsstring" where
  "js s = map of_char s"

section \<open>The collaborators in \<open>Utils\<close>\<close>

text \<open>
  \<open>Utils.normalize\<close>, \<open>Utils.capitalize\<close>, \<open>Utils.containsHanCharacter\<close> and
  \<open>Utils.toSimplifiedChinese\<close> are defined outside \<open>ProviderNetease.js\<close>; the functions
  below take them as a parameter. The second argument of \<open>normalize\<close> is \<open>None\<close> where the
  call site omits it.
\<close>

record utils =
  normalize :: "jsstring \<Rightarrow> bool option \<Rightarrow> jsstring"
  capitalize :: "jsstring \<Rightarrow> jsstring"
  containsHanCharacter :: "jsstring \<Rightarrow> bool"
  toSimplifiedChinese :: "jsstring \<Rightarrow> jsstring"

text \<open>
  One instance, used only to evaluate the functions at concrete inputs: \<open>normalize\<close> and
  \<open>toSimplifiedChinese\<close> leave the string alone, \<open>capitalize\<close> raises a leading ASCII
  lower-case letter, \<open>containsHanCharacter\<close> looks for a code unit in U+4E00..U+9FFF.
\<close>

definition sample_utils :: utils where
  "sample_utils =
     \<lparr> normalize = (\<lambda>s _. s),
       capitalize = (\<lambda>s. case s of [] \<Rightarrow> [] | c # cs \<Rightarrow> (if 97 \<le> c \<and> c \<le> 122 then c - 32 else c) # cs),
       containsHanCharacter = (\<lambda>s. list_ex (\<lambda>c. 19968 \<le> c \<and> c \<le> 40959) s),
       toSimplifiedChinese = (\<lambda>s. s) \<rparr>"

section \<open>\<open>search\<close>: choosing a song among the search results\<close>

record info =
  title :: jsstring
  artist :: jsstring
  album :: jsstring
  duration :: int

record album_entry =
  al_name :: jsstring

record song =
  song_name :: jsstring
  song_id :: nat
  dt :: int
  al :: album_entry

datatype error = CannotFindTrack

text \<open>The test of the loop body (lines 42 to 50), for one \<open>song\<close>.\<close>

definition accepts :: "utils \<Rightarrow> info \<Rightarrow> song \<Rightarrow> bool" where
  "accepts U i s =
     (let expectedDuration = duration i;
          actualDuration = dt s;
          neAlbumName = normalize U (album i) None;
          expectedAlbumName =
            (if containsHanCharacter U neAlbumName then toSimplifiedChinese U neAlbumName
             else neAlbumName);
          actualAlbumName = normalize U (al_name (al s)) None
      in actualAlbumName = expectedAlbumName \<or> \<bar>expectedDuration - actualDuration\<bar> < 1000)"

text \<open>
  \<open>search\<close> on the list \<open>items\<close> that the request returned
  (\<open>searchResults.result.songs\<close>): the \<open>for\<close> loop returns at the first accepted song and
  the \<open>throw\<close> after the loop is the error value.
\<close>

fun search :: "utils \<Rightarrow> info \<Rightarrow> song list \<Rightarrow> error + song" where
  "search U i [] = Inl CannotFindTrack"
| "search U i (s # items) = (if accepts U i s then Inr s else search U i items)"

section \<open>\<open>parseTimestamp\<close>: the spans of a line\<close>

text \<open>
  Code units used below: \<open>[\<close> is 91, \<open>]\<close> is 93, \<open>(\<close> is 40, \<open>)\<close> is 41, \<open>,\<close> is 44,
  \<open>:\<close> is 58, the space is 32, line feed 10, carriage return 13.
\<close>

text \<open>The characters that \<open>.\<close> does not match (no \<open>s\<close> flag): the line terminators.\<close>

definition lineTerminator :: "jschar \<Rightarrow> bool" where
  "lineTerminator c = (c = 10 \<or> c = 13 \<or> c = 8232 \<or> c = 8233)"

text \<open>
  \<open>.*?\]\<close> after an opening bracket: the lazy star stops at the first \<open>]\<close>, and fails when
  a line terminator or the end of the string comes first. The result is the matched text,
  closing bracket included, and what follows it.
\<close>

fun bracketGroup :: "jsstring \<Rightarrow> (jsstring \<times> jsstring) option" where
  "bracketGroup [] = None"
| "bracketGroup (c # cs) =
     (if c = 93 then Some ([c], cs)
      else if lineTerminator c then None
      else (case bracketGroup cs of None \<Rightarrow> None | Some (g, r) \<Rightarrow> Some (c # g, r)))"

definition notBracket :: "jschar \<Rightarrow> bool" where
  "notBracket c = (c \<noteq> 91 \<and> c \<noteq> 93)"

lemma bracketGroup_shorter: "bracketGroup cs = Some (g, r) \<Longrightarrow> length r < length cs"
  by (induction cs arbitrary: g r) (auto split: if_splits option.splits)

text \<open>
  \<open>line.match(/(\[.*?\])|([^\[\]]+)/g)\<close>: all matches from left to right. At each position
  the first alternative is tried first; a position where neither alternative matches (an
  opening bracket that is never closed on its line, a stray closing bracket) is stepped
  over. JavaScript returns \<open>null\<close> where there is no match; that is the empty list here, and
  line 97 treats the two alike.
\<close>

function matchSpans :: "jsstring \<Rightarrow> jsstring list" where
  "matchSpans [] = []"
| "matchSpans (c # cs) =
     (if c = 91 then
        (case bracketGroup cs of
           Some (g, r) \<Rightarrow> (c # g) # matchSpans r
         | None \<Rightarrow> matchSpans cs)
      else if c = 93 then matchSpans cs
      else takeWhile notBracket (c # cs) # matchSpans (dropWhile notBracket cs))"
  by pat_completeness auto
termination
proof (relation "measure length")
  show "wf (measure length)" by simp
next
  fix c cs x2 g r
  assume "bracketGroup cs = Some x2" and "(g, r) = x2"
  then have "length r < length cs" using bracketGroup_shorter [of cs g r] by simp
  then show "(r, c # cs) \<in> measure length" by simp
next
  fix c :: jschar and cs :: jsstring
  show "(cs, c # cs) \<in> measure length" by simp
next
  fix c :: jschar and cs :: jsstring
  show "(cs, c # cs) \<in> measure length" by simp
next
  fix c :: jschar and cs :: jsstring
  have "length (dropWhile notBracket cs) \<le> length cs" by (rule length_dropWhile_le)
  then show "(dropWhile notBracket cs, c # cs) \<in> measure length" by simp
qed

record parsed =
  p_time :: "jsstring option"
  p_text :: "jsstring option"

definition endsWith :: "jsstring \<Rightarrow> jschar \<Rightarrow> bool" where
  "endsWith s c = (s \<noteq> [] \<and> last s = c)"

text \<open>\<open>findIndex\<close>: the first index whose element satisfies the test; \<open>None\<close> is JavaScript's -1.\<close>

fun findIndex :: "('a \<Rightarrow> bool) \<Rightarrow> 'a list \<Rightarrow> nat option" where
  "findIndex P [] = None"
| "findIndex P (x # xs) =
     (if P x then Some 0 else (case findIndex P xs of None \<Rightarrow> None | Some i \<Rightarrow> Some (Suc i)))"

text \<open>\<open>splice(i, 1)\<close> leaves the array without its element at index \<open>i\<close>.\<close>

definition splice1 :: "nat \<Rightarrow> 'a list \<Rightarrow> 'a list" where
  "splice1 i xs = take i xs @ drop (Suc i) xs"

text \<open>
  \<open>parseTimestamp\<close>. A field that the returned object does not have is \<open>None\<close>.
  \<open>textIndex\<close> comes from \<open>findIndex\<close>, so it is an index of the array
  (\<open>findIndex_Some\<close>) and \<open>splice(textIndex, 1)[0]\<close> is the element there.
  \<open>s.replace("[", "")\<close> with a string pattern removes the first occurrence only, which is
  \<open>remove1\<close>. After \<open>splice\<close> has taken at most one of at least two spans, the array still
  has a first element; the branch for an empty array stands for reading \<open>matchResult[0]\<close>
  there and is never taken (\<open>parseTimestamp_time_defined\<close>).
\<close>

definition parseTimestamp :: "utils \<Rightarrow> jsstring \<Rightarrow> parsed" where
  "parseTimestamp U line =
     (let matchResult = matchSpans line in
      if length matchResult = 0 \<or> length matchResult = 1 then
        \<lparr> p_time = None, p_text = Some line \<rparr>
      else
        let textIndex = findIndex (\<lambda>slice. \<not> endsWith slice 93) matchResult;
            text = (case textIndex of
                      None \<Rightarrow> []
                    | Some i \<Rightarrow> capitalize U (normalize U (matchResult ! i) (Some False)));
            matchResult' = (case textIndex of
                              None \<Rightarrow> matchResult
                            | Some i \<Rightarrow> splice1 i matchResult)
        in (case matchResult' of
              [] \<Rightarrow> \<lparr> p_time = None, p_text = Some text \<rparr>
            | first # _ \<Rightarrow>
                \<lparr> p_time = Some (remove1 93 (remove1 91 first)), p_text = Some text \<rparr>))"

section \<open>\<open>breakdownLine\<close>: the words of a karaoke line\<close>

definition isDigit :: "jschar \<Rightarrow> bool" where
  "isDigit c = (48 \<le> c \<and> c \<le> 57)"

text \<open>
  \<open>\(\d+,(\d+)\)\<close> matched at the head of a string. Each \<open>\d+\<close> is followed by a character
  that is not a digit, so the greedy run is the only way to match. The result is the text
  of the capture group, which is the second number, and the rest of the string.
\<close>

definition marker :: "jsstring \<Rightarrow> (jsstring \<times> jsstring) option" where
  "marker s =
     (case s of
        [] \<Rightarrow> None
      | c # s1 \<Rightarrow>
          if c \<noteq> 40 \<or> takeWhile isDigit s1 = [] then None
          else
            (case dropWhile isDigit s1 of
               [] \<Rightarrow> None
             | c2 # s2 \<Rightarrow>
                 if c2 \<noteq> 44 \<or> takeWhile isDigit s2 = [] then None
                 else
                   (case dropWhile isDigit s2 of
                      [] \<Rightarrow> None
                    | c3 # s3 \<Rightarrow>
                        if c3 \<noteq> 41 then None else Some (takeWhile isDigit s2, s3))))"

lemma marker_SomeD:
  assumes "marker s = Some (cap, r)"
  shows "\<exists>s1 s2. s = 40 # s1 \<and> takeWhile isDigit s1 \<noteq> [] \<and> dropWhile isDigit s1 = 44 # s2
           \<and> cap = takeWhile isDigit s2 \<and> cap \<noteq> [] \<and> dropWhile isDigit s2 = 41 # r"
  using assms unfolding marker_def by (auto split: list.splits if_splits)

lemma marker_shorter: "marker s = Some (cap, r) \<Longrightarrow> length r < length s"
proof -
  have d: "length (dropWhile isDigit xs) \<le> length xs" for xs :: jsstring
    by (rule length_dropWhile_le)
  assume "marker s = Some (cap, r)"
  then obtain s1 s2 where s: "s = 40 # s1" "dropWhile isDigit s1 = 44 # s2"
      "dropWhile isDigit s2 = 41 # r"
    using marker_SomeD by blast
  from d [of s1] s(2) have "length s2 < length s1" by simp
  moreover from d [of s2] s(3) have "length r < length s2" by simp
  ultimately show ?thesis using s(1) by simp
qed

text \<open>
  \<open>text.split(/\(\d+,(\d+)\)/g)\<close>: the text before each match, then the capture of the
  match, and at the end the text after the last match. \<open>acc\<close> holds, reversed, the
  characters read since the last match.
\<close>

function splitMarkers :: "jsstring \<Rightarrow> jsstring \<Rightarrow> jsstring list" where
  "splitMarkers acc [] = [rev acc]"
| "splitMarkers acc (c # cs) =
     (case marker (c # cs) of
        Some (cap, r) \<Rightarrow> rev acc # cap # splitMarkers [] r
      | None \<Rightarrow> splitMarkers (c # acc) cs)"
  by pat_completeness auto
termination
proof (relation "measure (\<lambda>(acc, s). length s)")
  show "wf (measure (\<lambda>(acc, s). length s))" by simp
next
  fix acc :: jsstring and c :: jschar and cs x2 cap r
  assume "marker (c # cs) = Some x2" and "(cap, r) = x2"
  then have "length r < length (c # cs)" using marker_shorter [of "c # cs" cap r] by simp
  then show "(([], r), (acc, c # cs)) \<in> measure (\<lambda>(acc, s). length s)" by simp
next
  fix acc :: jsstring and c :: jschar and cs :: jsstring
  show "((c # acc, cs), (acc, c # cs)) \<in> measure (\<lambda>(acc, s). length s)" by simp
qed

text \<open>
  \<open>parseInt\<close> of a captured group, which is a run of decimal digits: its value. (A value
  above \<open>2^53\<close> is rounded by JavaScript's numbers; that is not modelled.)
\<close>

definition parseInt :: "jsstring \<Rightarrow> nat" where
  "parseInt ds = foldl (\<lambda>n d. 10 * n + (d - 48)) 0 ds"

record token =
  word :: jsstring
  w_time :: nat

text \<open>
  The loop of \<open>breakdownLine\<close>, on \<open>components\<close> from index 1: \<open>components[i]\<close> is a capture
  and \<open>components[i + 1]\<close> the text after its marker. The list that \<open>split\<close> returns has odd
  length, so the text is always there; where it were missing, \<open>undefined + " "\<close> would be
  the word, as the second equation says.
\<close>

fun breakdownLoop :: "jsstring list \<Rightarrow> token list" where
  "breakdownLoop [] = []"
| "breakdownLoop [t] = [\<lparr> word = js ''undefined '', w_time = parseInt t \<rparr>]"
| "breakdownLoop (t # w # rest) =
     (if w = [32] then breakdownLoop rest
      else \<lparr> word = w @ [32], w_time = parseInt t \<rparr> # breakdownLoop rest)"

definition breakdownLine :: "jsstring \<Rightarrow> token list" where
  "breakdownLine text = (let components = splitMarkers [] text in breakdownLoop (drop 1 components))"

subsection \<open>Karaoke text, as its format is described\<close>

text \<open>
  The text of a karaoke line is a sequence of markers \<open>(n,n)\<close>, each followed by a span
  of text. The definitions below build such texts; they describe the inputs of the
  statements about \<open>breakdownLine\<close> and are not part of \<open>ProviderNetease.js\<close>.
  \<open>mkMarker a b\<close> is the marker with the numbers \<open>a\<close> and \<open>b\<close>, which \<open>digits\<close> requires to
  be non-empty runs of decimal digits.
\<close>

definition mkMarker :: "jsstring \<Rightarrow> jsstring \<Rightarrow> jsstring" where
  "mkMarker a b = 40 # a @ 44 # b @ [41]"

definition digits :: "jsstring \<Rightarrow> bool" where
  "digits ds = (ds \<noteq> [] \<and> list_all isDigit ds)"

text \<open>A span in which the pattern of line 116 matches nowhere.\<close>

fun markerFree :: "jsstring \<Rightarrow> bool" where
  "markerFree [] = True"
| "markerFree (c # cs) = (marker (c # cs) = None \<and> markerFree cs)"

text \<open>The text made of the markers \<open>(a,b)\<close>, each followed by its span \<open>w\<close>.\<close>

definition render :: "(jsstring \<times> jsstring \<times> jsstring) list \<Rightarrow> jsstring" where
  "render items = concat (map (\<lambda>(a, b, w). mkMarker a b @ w) items)"

text \<open>Word spans with a span of one space between each two.\<close>

fun separated :: "jsstring list \<Rightarrow> jsstring list" where
  "separated [] = []"
| "separated [w] = [w]"
| "separated (w # v # ws) = w # [32] # separated (v # ws)"

section \<open>\<open>containCredits\<close>: the credit-line pattern\<close>

text \<open>White space as \<open>\s\<close>, \<open>trim\<close> and \<open>parseFloat\<close> know it: the white-space code points and the line terminators.\<close>

definition isWhiteSpace :: "jschar \<Rightarrow> bool" where
  "isWhiteSpace c =
     (c = 9 \<or> c = 10 \<or> c = 11 \<or> c = 12 \<or> c = 13 \<or> c = 32 \<or> c = 160 \<or> c = 5760
      \<or> (8192 \<le> c \<and> c \<le> 8202) \<or> c = 8232 \<or> c = 8233 \<or> c = 8239 \<or> c = 8287
      \<or> c = 12288 \<or> c = 65279)"

text \<open>
  The flag \<open>i\<close> compares characters after upper-casing each code unit. The literal
  characters of the pattern are ASCII letters, CJK ideographs and two colons; among these
  only the ASCII letters have a second form, their other case (a code unit above 127 whose
  upper case is ASCII is left alone by the flag).
\<close>

definition canonicalize :: "jschar \<Rightarrow> jschar" where
  "canonicalize c = (if 97 \<le> c \<and> c \<le> 122 then c - 32 else c)"

datatype cls = Ch jschar | Space | Dot

fun clsOk :: "cls \<Rightarrow> jschar \<Rightarrow> bool" where
  "clsOk (Ch p) c = (canonicalize c = canonicalize p)"
| "clsOk Space c = isWhiteSpace c"
| "clsOk Dot c = (\<not> lineTerminator c)"

text \<open>
  The part of the regular-expression syntax that the pattern uses: one character, \<open>x?\<close>
  and \<open>x*\<close> on one character, sequences and alternatives.
\<close>

datatype regex = Atom cls | Opt cls | Star cls | Seq "regex list" | Alt "regex list"

text \<open>The strings left after \<open>x*\<close> has taken some characters off the front.\<close>

fun starRests :: "cls \<Rightarrow> jsstring \<Rightarrow> jsstring list" where
  "starRests k [] = [[]]"
| "starRests k (c # cs) = (if clsOk k c then starRests k cs @ [c # cs] else [c # cs])"

text \<open>\<open>rests r s\<close>: what is left of \<open>s\<close> after each way of matching \<open>r\<close> at its start.\<close>

fun rests :: "regex \<Rightarrow> jsstring \<Rightarrow> jsstring list" where
  "rests (Atom k) s = (case s of [] \<Rightarrow> [] | c # cs \<Rightarrow> if clsOk k c then [cs] else [])"
| "rests (Opt k) s = (case s of [] \<Rightarrow> [s] | c # cs \<Rightarrow> if clsOk k c then [cs, s] else [s])"
| "rests (Star k) s = starRests k s"
| "rests (Seq rs) s = foldl (\<lambda>ss r. concat (map (rests r) ss)) [s] rs"
| "rests (Alt rs) s = concat (map (\<lambda>r. rests r s) rs)"

definition lit :: "jsstring \<Rightarrow> regex" where
  "lit s = Seq (map (\<lambda>c. Atom (Ch c)) s)"

text \<open>
  The four strings of \<open>creditInfo\<close>, each cut at its \<open>|\<close> into alternatives. Joining them
  with \<open>|\<close> gives one alternation of all of them.
\<close>

definition creditInfo :: "regex list list" where
  "creditInfo =
   [ [ Seq [Opt Space, Opt (Ch 0x4F5C), Star Space, Atom (Ch 0x8BCD)],
       Seq [Opt Space, Opt (Ch 0x4F5C), Star Space, Atom (Ch 0x66F2)],
       Seq [Opt Space, Atom (Ch 0x7F16), Star Space, Opt (Ch 0x66F2)],
       Seq [Opt Space, Atom (Ch 0x76D1), Star Space, Opt (Ch 0x5236)] ],
     map (\<lambda>w. Seq [Star Dot, lit w])
       [ [0x7F16, 0x5199], [0x548C, 0x97F3], [0x548C, 0x58F0], [0x5408, 0x58F0],
         [0x63D0, 0x7434], [0x5F55], [0x5DE5, 0x7A0B], [0x5DE5, 0x4F5C, 0x5BA4],
         [0x8BBE, 0x8BA1], [0x526A, 0x8F91], [0x5236, 0x4F5C], [0x53D1, 0x884C],
         [0x51FA, 0x54C1], [0x540E, 0x671F], [0x6DF7, 0x97F3], [0x7F29, 0x6DF7] ],
     map lit
       [ [0x539F, 0x5531], [0x7FFB, 0x5531], [0x9898, 0x5B57], [0x6587, 0x6848],
         [0x6D77, 0x62A5], [0x53E4, 0x7B5D], [0x4E8C, 0x80E1], [0x94A2, 0x7434],
         [0x5409, 0x4ED6], [0x8D1D, 0x65AF], [0x7B1B, 0x5B50], [0x9F13], [0x5F26, 0x4E50] ],
     map (\<lambda>w. lit (js w))
       [ ''lrc'', ''publish'', ''vocal'', ''guitar'', ''program'', ''produce'', ''write'', ''mix'' ] ]"

text \<open>\<open>^(...).*(:|\<dots>)\<close> where the last alternative is the full-width colon U+FF1A.\<close>

definition creditInfoRegExp :: regex where
  "creditInfoRegExp = Seq [Alt (concat creditInfo), Star Dot, Alt [Atom (Ch 58), Atom (Ch 0xFF1A)]]"

text \<open>
  \<open>test\<close> on a pattern that starts with \<open>^\<close> and has no end anchor: some way of matching
  at the start of the text exists.
\<close>

definition containCredits :: "jsstring \<Rightarrow> bool" where
  "containCredits text = (rests creditInfoRegExp text \<noteq> [])"

section \<open>Numbers and \<open>parseFloat\<close>\<close>

text \<open>
  A JavaScript number is \<open>NaN\<close>, an infinity (\<open>Infinity True\<close> is the positive one) or a finite
  value. Finite values are kept exact here: the rounding of binary floating point is not
  modelled (a decimal exponent beyond the range of a double gives an infinity or zero in
  JavaScript and a finite value here). Whether a number is \<open>NaN\<close>, which is all that the
  extractors test, does not depend on that.
\<close>

datatype jsnum = NaN | Infinity bool | Fin rat

fun num_mul :: "jsnum \<Rightarrow> jsnum \<Rightarrow> jsnum" where
  "num_mul (Fin a) (Fin b) = Fin (a * b)"
| "num_mul (Infinity s) (Fin b) = (if b = 0 then NaN else Infinity (s = (0 < b)))"
| "num_mul (Fin a) (Infinity t) = (if a = 0 then NaN else Infinity (t = (0 < a)))"
| "num_mul (Infinity s) (Infinity t) = Infinity (s = t)"
| "num_mul _ _ = NaN"

fun num_add :: "jsnum \<Rightarrow> jsnum \<Rightarrow> jsnum" where
  "num_add (Fin a) (Fin b) = Fin (a + b)"
| "num_add (Infinity s) (Fin b) = Infinity s"
| "num_add (Fin a) (Infinity t) = Infinity t"
| "num_add (Infinity s) (Infinity t) = (if s = t then Infinity s else NaN)"
| "num_add _ _ = NaN"

text \<open>An optional sign at the head of a string: whether it is a minus, and the rest.\<close>

definition signOf :: "jsstring \<Rightarrow> bool \<times> jsstring" where
  "signOf s =
     (case s of
        [] \<Rightarrow> (False, s)
      | c # r \<Rightarrow> if c = 45 then (True, r) else if c = 43 then (False, r) else (False, s))"

text \<open>The factor of an exponent part \<open>e\<close> or \<open>E\<close>, sign, digits; 1 where there is none.\<close>

definition exponentPart :: "jsstring \<Rightarrow> rat" where
  "exponentPart s =
     (case s of
        [] \<Rightarrow> 1
      | c # r \<Rightarrow>
          if c = 101 \<or> c = 69 then
            (case signOf r of
               (neg, r') \<Rightarrow>
                 let ds = takeWhile isDigit r' in
                 if ds = [] then 1
                 else if neg then 1 / 10 ^ parseInt ds
                 else 10 ^ parseInt ds)
          else 1)"

text \<open>
  \<open>parseFloat\<close>: leading white space is dropped, then the longest prefix that is a decimal
  literal is read (sign, \<open>Infinity\<close>, or digits with an optional fraction and exponent);
  \<open>NaN\<close> where no prefix is one.
\<close>

definition parseFloat :: "jsstring \<Rightarrow> jsnum" where
  "parseFloat s =
     (case signOf (dropWhile isWhiteSpace s) of
        (neg, s2) \<Rightarrow>
          if take 8 s2 = js ''Infinity'' then Infinity (\<not> neg)
          else
            let ip = takeWhile isDigit s2;
                s3 = dropWhile isDigit s2;
                hasPoint = (case s3 of [] \<Rightarrow> False | c # _ \<Rightarrow> c = 46);
                fp = (if hasPoint then takeWhile isDigit (drop 1 s3) else []);
                s4 = (if hasPoint then dropWhile isDigit (drop 1 s3) else s3)
            in if ip = [] \<and> fp = [] then NaN
               else Fin ((if neg then - 1 else 1)
                         * (of_nat (parseInt ip) + of_nat (parseInt fp) / 10 ^ length fp)
                         * exponentPart s4))"

text \<open>\<open>parseFloat\<close> of an array element that may be missing: \<open>parseFloat(undefined)\<close> is \<open>NaN\<close>.\<close>

definition parseFloatOpt :: "jsstring option \<Rightarrow> jsnum" where
  "parseFloatOpt v = (case v of None \<Rightarrow> NaN | Some s \<Rightarrow> parseFloat s)"

section \<open>The four extractors\<close>

record lyric_block =
  lyric :: "jsstring option"

record payload =
  lrc :: "lyric_block option"
  klyric :: "lyric_block option"
  tlyric :: "lyric_block option"

text \<open>\<open>list?.field?.lyric\<close>: \<open>None\<close> as soon as one link is missing.\<close>

definition lyricOf :: "(payload \<Rightarrow> lyric_block option) \<Rightarrow> payload option \<Rightarrow> jsstring option" where
  "lyricOf field list =
     (case list of
        None \<Rightarrow> None
      | Some l \<Rightarrow> (case field l of None \<Rightarrow> None | Some b \<Rightarrow> lyric b))"

text \<open>\<open>s.split(/\r?\n/)\<close>; \<open>acc\<close> holds, reversed, the characters of the current line.\<close>

fun splitLines :: "jsstring \<Rightarrow> jsstring \<Rightarrow> jsstring list" where
  "splitLines acc [] = [rev acc]"
| "splitLines acc [c] = (if c = 10 then [rev acc, []] else [rev (c # acc)])"
| "splitLines acc (c # d # cs) =
     (if c = 13 \<and> d = 10 then rev acc # splitLines [] cs
      else if c = 10 then rev acc # splitLines [] (d # cs)
      else splitLines (c # acc) (d # cs))"

definition trim :: "jsstring \<Rightarrow> jsstring" where
  "trim s = rev (dropWhile isWhiteSpace (rev (dropWhile isWhiteSpace s)))"

text \<open>\<open>lyricStr.split(/\r?\n/).map(line => line.trim())\<close>\<close>

definition linesOf :: "jsstring \<Rightarrow> jsstring list" where
  "linesOf lyricStr = map trim (splitLines [] lyricStr)"

text \<open>\<open>s.split(sep)\<close> for a separator of one character.\<close>

fun splitOn :: "jschar \<Rightarrow> jsstring \<Rightarrow> jsstring \<Rightarrow> jsstring list" where
  "splitOn sep acc [] = [rev acc]"
| "splitOn sep acc (c # cs) =
     (if c = sep then rev acc # splitOn sep [] cs else splitOn sep (c # acc) cs)"

text \<open>Reading an array at an index: \<open>None\<close> is \<open>undefined\<close>.\<close>

definition elemAt :: "'a list \<Rightarrow> nat \<Rightarrow> 'a option" where
  "elemAt xs i = (if i < length xs then Some (xs ! i) else None)"

text \<open>\<open>.filter(a => a)\<close> on an array of objects and \<open>null\<close>s keeps the objects.\<close>

definition filterTruthy :: "'a option list \<Rightarrow> 'a list" where
  "filterTruthy xs = List.map_filter (\<lambda>a. a) xs"

text \<open>The instrumental notice of lines 175 and 239: U+7EAF U+97F3 U+4E50, comma, space, U+8BF7 U+6B23 U+8D4F.\<close>

definition noLyricsNotice :: jsstring where
  "noLyricsNotice = [0x7EAF, 0x97F3, 0x4E50, 44, 32, 0x8BF7, 0x6B23, 0x8D4F]"

record karaoke_line =
  k_startTime :: jsnum
  k_text :: "token list"

record timed_line =
  startTime :: jsnum
  l_text :: jsstring

text \<open>The function mapped over the lines by \<open>getKaraoke\<close> (lines 138 to 153); \<open>None\<close> is \<open>null\<close>.\<close>

definition karaokeOfLine :: "utils \<Rightarrow> jsstring \<Rightarrow> karaoke_line option" where
  "karaokeOfLine U line =
     (let p = parseTimestamp U line in
      case (p_time p, p_text p) of
        (Some time, Some text) \<Rightarrow>
          if time = [] \<or> text = [] then None
          else
            let parts = splitOn 44 [] time;
                start = parseFloatOpt (elemAt parts 0);
                durr = parseFloatOpt (elemAt parts 1)
            in if start \<noteq> NaN \<and> durr \<noteq> NaN \<and> \<not> containCredits text then
                 Some \<lparr> k_startTime = start, k_text = breakdownLine text \<rparr>
               else None
      | _ \<Rightarrow> None)"

definition getKaraoke :: "utils \<Rightarrow> payload option \<Rightarrow> karaoke_line list option" where
  "getKaraoke U list =
     (case lyricOf klyric list of
        None \<Rightarrow> None
      | Some lyricStr \<Rightarrow>
          if lyricStr = [] then None
          else
            let lines = linesOf lyricStr;
                karaoke = filterTruthy (map (karaokeOfLine U) lines)
            in if length karaoke = 0 then None else Some karaoke)"

text \<open>
  What \<open>getSynced\<close> (lines 176 to 186) and \<open>getTranslation\<close> (lines 207 to 217) do with a
  parsed line; the two pieces of code are the same.
\<close>

definition timedOfParsed :: "parsed \<Rightarrow> timed_line option" where
  "timedOfParsed p =
     (case (p_time p, p_text p) of
        (Some time, Some text) \<Rightarrow>
          if time = [] \<or> text = [] then None
          else
            let parts = splitOn 58 [] time;
                min = parseFloatOpt (elemAt parts 0);
                sec = parseFloatOpt (elemAt parts 1)
            in if min \<noteq> NaN \<and> sec \<noteq> NaN \<and> \<not> containCredits text then
                 Some \<lparr> startTime = num_mul (num_add (num_mul min (Fin 60)) sec) (Fin 1000),
                        l_text = (if text \<noteq> [] then text else []) \<rparr>
               else None
      | _ \<Rightarrow> None)"

text \<open>
  The \<open>map\<close> of \<open>getSynced\<close> assigns the variable \<open>noLyrics\<close> while it runs; the loop below
  passes the variable along and returns it with the mapped array.
\<close>

fun syncedLoop :: "utils \<Rightarrow> bool \<Rightarrow> jsstring list \<Rightarrow> timed_line option list \<times> bool" where
  "syncedLoop U noLyrics [] = ([], noLyrics)"
| "syncedLoop U noLyrics (line # lines) =
     (let p = parseTimestamp U line;
          noLyrics' = (if p_text p = Some noLyricsNotice then True else noLyrics)
      in case syncedLoop U noLyrics' lines of
           (items, final) \<Rightarrow> (timedOfParsed p # items, final))"

definition getSynced :: "utils \<Rightarrow> payload option \<Rightarrow> timed_line list option" where
  "getSynced U list =
     (case lyricOf lrc list of
        None \<Rightarrow> None
      | Some lyricStr \<Rightarrow>
          if lyricStr = [] then None
          else
            (case syncedLoop U False (linesOf lyricStr) of
               (items, noLyrics) \<Rightarrow>
                 let lyrics = filterTruthy items
                 in if length lyrics = 0 \<or> noLyrics then None else Some lyrics))"

definition getTranslation :: "utils \<Rightarrow> payload option \<Rightarrow> timed_line list option" where
  "getTranslation U list =
     (case lyricOf tlyric list of
        None \<Rightarrow> None
      | Some lyricStr \<Rightarrow>
          if lyricStr = [] then None
          else
            let lines = linesOf lyricStr;
                translation = filterTruthy (map (\<lambda>line. timedOfParsed (parseTimestamp U line)) lines)
            in if length translation = 0 then None else Some translation)"

text \<open>The function mapped by \<open>getUnsynced\<close>, after the assignment to \<open>noLyrics\<close> (lines 240 and 241).\<close>

definition unsyncedOfParsed :: "parsed \<Rightarrow> parsed option" where
  "unsyncedOfParsed p =
     (case p_text p of
        None \<Rightarrow> None
      | Some text \<Rightarrow> if text = [] \<or> containCredits text then None else Some p)"

fun unsyncedLoop :: "utils \<Rightarrow> bool \<Rightarrow> jsstring list \<Rightarrow> parsed option list \<times> bool" where
  "unsyncedLoop U noLyrics [] = ([], noLyrics)"
| "unsyncedLoop U noLyrics (line # lines) =
     (let p = parseTimestamp U line;
          noLyrics' = (if p_text p = Some noLyricsNotice then True else noLyrics)
      in case unsyncedLoop U noLyrics' lines of
           (items, final) \<Rightarrow> (unsyncedOfParsed p # items, final))"

definition getUnsynced :: "utils \<Rightarrow> payload option \<Rightarrow> parsed list option" where
  "getUnsynced U list =
     (case lyricOf lrc list of
        None \<Rightarrow> None
      | Some lyricStr \<Rightarrow>
          if lyricStr = [] then None
          else
            (case unsyncedLoop U False (linesOf lyricStr) of
               (items, noLyrics) \<Rightarrow>
                 let lyrics = filterTruthy items
                 in if length lyrics = 0 \<or> noLyrics then None else Some lyrics))"

section \<open>Inputs used for evaluation\<close>

definition query1 :: info where
  "query1 = \<lparr> title = js ''Song'', artist = js ''Band'', album = js ''First Album'', duration = 200000 \<rparr>"

definition cand :: "nat \<Rightarrow> int \<Rightarrow> string \<Rightarrow> song" where
  "cand n d a = \<lparr> song_name = js ''Song'', song_id = n, dt = d, al = \<lparr> al_name = js a \<rparr> \<rparr>"

definition noticeBlock :: jsstring where
  "noticeBlock = js ''[00:01]Hello'' @ [10] @ js ''[00:02]'' @ noLyricsNotice"

definition noticePayload :: "payload option" where
  "noticePayload = Some \<lparr> lrc = Some \<lparr> lyric = Some noticeBlock \<rparr>, klyric = None, tlyric = None \<rparr>"

definition creditText1 :: jsstring where
  "creditText1 = [0x4F5C, 0x8BCD, 0xFF1A] @ js ''Someone''"

definition creditText2 :: jsstring where
  "creditText2 = js ''Mixed by: Someone''"

definition creditBlock :: jsstring where
  "creditBlock = js ''[00:01]'' @ creditText1 @ [13, 10] @ js ''[00:02]'' @ creditText2"

definition creditPayload :: "payload option" where
  "creditPayload =
     Some \<lparr> lrc = Some \<lparr> lyric = Some creditBlock \<rparr>,
            klyric = Some \<lparr> lyric = Some creditBlock \<rparr>,
            tlyric = Some \<lparr> lyric = Some creditBlock \<rparr> \<rparr>"

section \<open>Properties of \<open>search\<close>\<close>

lemma search_skips_rejected:
  "\<forall>c\<in>set pre. \<not> accepts U i c \<Longrightarrow> search U i (pre @ rest) = search U i rest"
  by (induction pre) simp_all

lemma search_Inr_decompose:
  "search U i items = Inr s \<Longrightarrow>
     \<exists>pre post. items = pre @ s # post \<and> (\<forall>c\<in>set pre. \<not> accepts U i c) \<and> accepts U i s"
proof (induction items)
  case Nil
  then show ?case by simp
next
  case (Cons x items)
  show ?case
  proof (cases "accepts U i x")
    case True
    with Cons.prems have "x = s" by simp
    with True have "x # items = [] @ s # items \<and> (\<forall>c\<in>set []. \<not> accepts U i c) \<and> accepts U i s"
      by simp
    then show ?thesis by blast
  next
    case False
    with Cons.prems have "search U i items = Inr s" by simp
    from Cons.IH [OF this] obtain pre post where
      d: "items = pre @ s # post" "\<forall>c\<in>set pre. \<not> accepts U i c" "accepts U i s"
      by blast
    from d False have "x # items = (x # pre) @ s # post \<and> (\<forall>c\<in>set (x # pre). \<not> accepts U i c) \<and> accepts U i s"
      by simp
    then show ?thesis by blast
  qed
qed

lemma search_Inl_iff:
  "search U i items = Inl CannotFindTrack \<longleftrightarrow> (\<forall>c\<in>set items. \<not> accepts U i c)"
  by (induction items) auto

text \<open>
  C1. \<open>search\<close> returns the song \<open>s\<close> exactly when \<open>s\<close> is the first element of the received
  list that the test of line 50 accepts: the list is \<open>pre @ s # post\<close>, no song of \<open>pre\<close> is
  accepted and \<open>s\<close> is. The test (\<open>accepts\<close>) is: the normalized album names are equal,
  the query's being converted by \<open>toSimplifiedChinese\<close> when \<open>containsHanCharacter\<close> holds of
  it, or the durations differ by less than 1000. Nothing is asked of \<open>post\<close>, so a later
  song that would be accepted too does not change the result.
\<close>

theorem search_returns_first_accepted:
  "search U i items = Inr s \<longleftrightarrow>
     (\<exists>pre post. items = pre @ s # post \<and> (\<forall>c\<in>set pre. \<not> accepts U i c) \<and> accepts U i s)"
proof
  assume "search U i items = Inr s"
  then show "\<exists>pre post. items = pre @ s # post \<and> (\<forall>c\<in>set pre. \<not> accepts U i c) \<and> accepts U i s"
    by (rule search_Inr_decompose)
next
  assume "\<exists>pre post. items = pre @ s # post \<and> (\<forall>c\<in>set pre. \<not> accepts U i c) \<and> accepts U i s"
  then obtain pre post where
    d: "items = pre @ s # post" "\<forall>c\<in>set pre. \<not> accepts U i c" "accepts U i s"
    by blast
  from d(2) have "search U i (pre @ s # post) = search U i (s # post)"
    by (rule search_skips_rejected)
  with d(1,3) show "search U i items = Inr s" by simp
qed

text \<open>
  At three songs: the first is rejected, the second is accepted by its duration (999 ms
  off), the third would be accepted by its album; the second is returned.
\<close>

theorem search_returns_first_accepted_witness:
  "search sample_utils query1
     [cand 1 150000 ''Other'', cand 2 200999 ''Live'', cand 3 200000 ''First Album'']
   = Inr (cand 2 200999 ''Live'')"
proof -
  have "[cand 1 150000 ''Other'', cand 2 200999 ''Live'', cand 3 200000 ''First Album'']
        = [cand 1 150000 ''Other''] @ cand 2 200999 ''Live'' # [cand 3 200000 ''First Album'']
      \<and> (\<forall>c\<in>set [cand 1 150000 ''Other'']. \<not> accepts sample_utils query1 c)
      \<and> accepts sample_utils query1 (cand 2 200999 ''Live'')"
    by (simp add: accepts_def sample_utils_def query1_def cand_def js_def)
  then show ?thesis
    using search_returns_first_accepted
      [of sample_utils query1 "[cand 1 150000 ''Other'', cand 2 200999 ''Live'', cand 3 200000 ''First Album'']"
          "cand 2 200999 ''Live''"]
    by blast
qed

text \<open>
  C2. \<open>search\<close> fails with \<open>CannotFindTrack\<close> (the thrown string) exactly when no song of
  the list is accepted, which includes the empty list; in every other case it returns a
  song of the list, and one that is accepted.
\<close>

theorem search_fails_iff_none_accepted:
  "(search U i items = Inl CannotFindTrack \<longleftrightarrow> (\<forall>c\<in>set items. \<not> accepts U i c))
   \<and> (search U i items \<noteq> Inl CannotFindTrack \<longrightarrow>
        (\<exists>s\<in>set items. search U i items = Inr s \<and> accepts U i s))"
proof
  show "search U i items = Inl CannotFindTrack \<longleftrightarrow> (\<forall>c\<in>set items. \<not> accepts U i c)"
    by (rule search_Inl_iff)
next
  show "search U i items \<noteq> Inl CannotFindTrack \<longrightarrow>
        (\<exists>s\<in>set items. search U i items = Inr s \<and> accepts U i s)"
  proof
    assume n: "search U i items \<noteq> Inl CannotFindTrack"
    obtain s where s: "search U i items = Inr s"
    proof (cases "search U i items")
      case (Inl e)
      with n show ?thesis by (cases e) simp
    next
      case (Inr s)
      with that show ?thesis by blast
    qed
    from search_Inr_decompose [OF s] have "s \<in> set items \<and> accepts U i s" by auto
    with s show "\<exists>s\<in>set items. search U i items = Inr s \<and> accepts U i s" by blast
  qed
qed

text \<open>
  At the empty list, at a list whose songs are both rejected (the second is exactly
  1000 ms off), and at a list whose second song is accepted by its album.
\<close>

theorem search_fails_iff_none_accepted_witness:
  "search sample_utils query1 [] = Inl CannotFindTrack
   \<and> search sample_utils query1 [cand 1 150000 ''Other'', cand 4 201000 ''Live''] = Inl CannotFindTrack
   \<and> search sample_utils query1 [cand 1 150000 ''Other'', cand 3 0 ''First Album''] \<noteq> Inl CannotFindTrack"
  using search_fails_iff_none_accepted [of sample_utils query1 "[]"]
    search_fails_iff_none_accepted [of sample_utils query1 "[cand 1 150000 ''Other'', cand 4 201000 ''Live'']"]
    search_fails_iff_none_accepted [of sample_utils query1 "[cand 1 150000 ''Other'', cand 3 0 ''First Album'']"]
  by (simp add: accepts_def sample_utils_def query1_def cand_def js_def)

section \<open>Properties of \<open>parseTimestamp\<close>\<close>

lemmas eval_parse = parseTimestamp_def js_def lineTerminator_def notBracket_def endsWith_def splice1_def

lemma findIndex_Some: "findIndex P xs = Some i \<Longrightarrow> i < length xs \<and> P (xs ! i) \<and> (\<forall>j<i. \<not> P (xs ! j))"
proof (induction xs arbitrary: i)
  case Nil
  then show ?case by simp
next
  case (Cons x xs)
  show ?case
  proof (cases "P x")
    case True
    with Cons.prems show ?thesis by simp
  next
    case False
    with Cons.prems obtain k where k: "findIndex P xs = Some k" "i = Suc k"
      by (auto split: option.splits)
    from Cons.IH [OF k(1)] False k(2) show ?thesis
      by (auto simp: less_Suc_eq_0_disj)
  qed
qed

lemma findIndex_None: "findIndex P xs = None \<longleftrightarrow> (\<forall>x\<in>set xs. \<not> P x)"
  by (induction xs) (auto split: option.splits)

lemma bracketGroup_form:
  "bracketGroup cs = Some (g, r) \<Longrightarrow> \<exists>body. g = body @ [93] \<and> 93 \<notin> set body"
proof (induction cs arbitrary: g r)
  case Nil
  then show ?case by simp
next
  case (Cons c cs)
  show ?case
  proof (cases "c = 93")
    case True
    with Cons.prems have "g = [] @ [93] \<and> 93 \<notin> set ([] :: jsstring)" by simp
    then show ?thesis by blast
  next
    case False
    with Cons.prems obtain g' where g': "bracketGroup cs = Some (g', r)" "g = c # g'"
      by (auto split: if_splits option.splits)
    from Cons.IH [OF g'(1)] obtain body where "g' = body @ [93]" "93 \<notin> set body" by blast
    with g'(2) False have "g = (c # body) @ [93] \<and> 93 \<notin> set (c # body)" by simp
    then show ?thesis by blast
  qed
qed

lemma matchSpans_span:
  "t \<in> set (matchSpans s) \<Longrightarrow>
     (\<exists>body. t = 91 # body @ [93] \<and> 93 \<notin> set body) \<or> (t \<noteq> [] \<and> (\<forall>c\<in>set t. notBracket c))"
proof (induction s rule: matchSpans.induct)
  case 1
  then show ?case by simp
next
  case (2 c cs)
  show ?case
  proof (cases "c = 91")
    case True
    show ?thesis
    proof (cases "bracketGroup cs")
      case None
      with True 2 show ?thesis by simp
    next
      case (Some gr)
      obtain g r where gr: "gr = (g, r)" by (cases gr)
      from bracketGroup_form Some gr obtain body where b: "g = body @ [93]" "93 \<notin> set body"
        by blast
      from "2.prems" True Some gr have "t = c # g \<or> t \<in> set (matchSpans r)" by simp
      then show ?thesis
      proof
        assume "t = c # g"
        with True b show ?thesis by simp
      next
        assume "t \<in> set (matchSpans r)"
        with "2.IH"(2) [OF True Some gr [symmetric]] show ?thesis by simp
      qed
    qed
  next
    case False
    show ?thesis
    proof (cases "c = 93")
      case True
      with False 2 show ?thesis by simp
    next
      case n93: False
      from False n93 have nb: "notBracket c" by (simp add: notBracket_def)
      from "2.prems" False n93 have
        "t = takeWhile notBracket (c # cs) \<or> t \<in> set (matchSpans (dropWhile notBracket cs))"
        by simp
      then show ?thesis
      proof
        assume t: "t = takeWhile notBracket (c # cs)"
        then have "\<forall>x\<in>set t. notBracket x" by (auto dest: set_takeWhileD)
        moreover from t nb have "t \<noteq> []" by simp
        ultimately show ?thesis by blast
      next
        assume "t \<in> set (matchSpans (dropWhile notBracket cs))"
        with "2.IH"(4) [OF False n93] show ?thesis by simp
      qed
    qed
  qed
qed

lemma bracketed_span_form:
  assumes "t \<in> set (matchSpans s)" and "endsWith t 93"
  shows "\<exists>body. t = 91 # body @ [93] \<and> 93 \<notin> set body"
proof -
  from matchSpans_span [OF assms(1)] show ?thesis
  proof
    assume "t \<noteq> [] \<and> (\<forall>c\<in>set t. notBracket c)"
    then have "notBracket (last t)" by simp
    with assms(2) show ?thesis by (simp add: endsWith_def notBracket_def)
  qed
qed

lemma strip_brackets: "93 \<notin> set body \<Longrightarrow> remove1 93 (remove1 91 (91 # body @ [93])) = body"
  by (simp add: remove1_append)


lemma parseTimestamp_time_defined:
  assumes "2 \<le> length (matchSpans line)"
  shows "p_time (parseTimestamp U line) \<noteq> None"
proof -
  from assms obtain a b rest where abr: "matchSpans line = a # b # rest"
    by (cases "matchSpans line"; cases "tl (matchSpans line)") auto
  show ?thesis
  proof (cases "findIndex (\<lambda>slice. \<not> endsWith slice 93) (a # b # rest)")
    case None
    then show ?thesis by (simp add: parseTimestamp_def abr)
  next
    case (Some i)
    have "splice1 i (a # b # rest) \<noteq> []"
      by (cases i) (simp_all add: splice1_def)
    then obtain f more where "splice1 i (a # b # rest) = f # more"
      by (cases "splice1 i (a # b # rest)") auto
    with Some show ?thesis by (simp add: parseTimestamp_def abr)
  qed
qed

text \<open>
  C5 as stated does not hold: \<open>[ar:Beyond]\<close> is one span, and for one span line 98
  returns the object \<open>{ text: line }\<close>, not an object with a \<open>time\<close>.
\<close>

theorem parseTimestamp_single_tag_counterexample:
  "parseTimestamp sample_utils (js ''[ar:Beyond]'')
   \<noteq> \<lparr> p_time = Some (js ''ar:Beyond''), p_text = None \<rparr>"
  by (simp add: eval_parse)

text \<open>
  C5, amended. \<open>parseTimestamp\<close> applied to the one-span line \<open>[ar:Beyond]\<close> returns the
  whole line as \<open>text\<close>, brackets included, and no \<open>time\<close>.
\<close>

theorem parseTimestamp_single_tag:
  "parseTimestamp U (js ''[ar:Beyond]'') = \<lparr> p_time = None, p_text = Some (js ''[ar:Beyond]'') \<rparr>"
  by (simp add: eval_parse)

text \<open>
  C9. Let the line have at least two spans, among them a span that is not a bracketed
  group (the first such at index \<open>i\<close>) and a bracketed group (the first at index \<open>j\<close>),
  and let the first bracketed group be the first or the second span, as it is whenever
  bracketed groups and other spans alternate, and also when several bracketed groups
  come first. Then \<open>time\<close> is what that group has between its brackets, and \<open>text\<close>
  is the span at \<open>i\<close> after \<open>normalize\<close> (second argument \<open>false\<close>) and \<open>capitalize\<close>.
\<close>

theorem parseTimestamp_time_and_text:
  assumes toks: "matchSpans line = toks"
    and len: "2 \<le> length toks"
    and i: "findIndex (\<lambda>slice. \<not> endsWith slice 93) toks = Some i"
    and j: "findIndex (\<lambda>slice. endsWith slice 93) toks = Some j"
    and j1: "j \<le> 1"
  shows "\<exists>body. toks ! j = 91 # body @ [93]
           \<and> parseTimestamp U line
               = \<lparr> p_time = Some body,
                   p_text = Some (capitalize U (normalize U (toks ! i) (Some False))) \<rparr>"
proof -
  from len obtain a b rest where abr: "toks = a # b # rest"
    by (cases toks; cases "tl toks") auto
  from findIndex_Some [OF j] have jb: "j < length toks" "endsWith (toks ! j) 93" by simp_all
  from jb(1) have "toks ! j \<in> set toks" by simp
  with toks have "toks ! j \<in> set (matchSpans line)" by simp
  from bracketed_span_form [OF this jb(2)] obtain body where
    body: "toks ! j = 91 # body @ [93]" "93 \<notin> set body"
    by blast
  have first: "\<exists>more. splice1 i toks = toks ! j # more"
  proof (cases "endsWith a 93")
    case True
    with j abr have j0: "j = 0" by simp
    from True i abr obtain k where "i = Suc k" by (auto split: option.splits)
    with abr j0 show ?thesis by (simp add: splice1_def)
  next
    case False
    with i abr have i0: "i = 0" by simp
    from False j abr j1 have "j = 1" by (auto split: option.splits if_splits)
    with abr i0 show ?thesis by (simp add: splice1_def)
  qed
  then obtain more where more: "splice1 i toks = toks ! j # more" by blast
  have "parseTimestamp U line
        = \<lparr> p_time = Some (remove1 93 (remove1 91 (toks ! j))),
            p_text = Some (capitalize U (normalize U (toks ! i) (Some False))) \<rparr>"
  proof -
    from abr have n: "length toks \<noteq> 0" "length toks \<noteq> 1" by simp_all
    show ?thesis
      unfolding parseTimestamp_def toks Let_def using n by (simp add: i more)
  qed
  with body strip_brackets [OF body(2)] show ?thesis by simp
qed

text \<open>At \<open>[03:10]lyrics\<close>, with the sample \<open>capitalize\<close>: \<open>time\<close> is \<open>03:10\<close> and \<open>text\<close> is \<open>Lyrics\<close>.\<close>

theorem parseTimestamp_time_and_text_witness:
  "parseTimestamp sample_utils (js ''[03:10]lyrics'')
   = \<lparr> p_time = Some (js ''03:10''), p_text = Some (js ''Lyrics'') \<rparr>"
proof -
  have toks: "matchSpans (js ''[03:10]lyrics'') = [js ''[03:10]'', js ''lyrics'']"
    by (simp add: js_def lineTerminator_def notBracket_def)
  have len: "2 \<le> length [js ''[03:10]'', js ''lyrics'']" by simp
  have i: "findIndex (\<lambda>slice. \<not> endsWith slice 93) [js ''[03:10]'', js ''lyrics''] = Some 1"
    by (simp add: js_def endsWith_def)
  have j: "findIndex (\<lambda>slice. endsWith slice 93) [js ''[03:10]'', js ''lyrics''] = Some 0"
    by (simp add: js_def endsWith_def)
  from parseTimestamp_time_and_text [OF toks len i j, of sample_utils]
  obtain body where b: "[js ''[03:10]'', js ''lyrics''] ! 0 = 91 # body @ [93]"
      "parseTimestamp sample_utils (js ''[03:10]lyrics'')
       = \<lparr> p_time = Some body,
           p_text = Some (capitalize sample_utils
                            (normalize sample_utils ([js ''[03:10]'', js ''lyrics''] ! 1) (Some False))) \<rparr>"
    by auto
  from b(1) have "body = js ''03:10''" by (simp add: js_def)
  with b(2) show ?thesis by (simp add: sample_utils_def js_def)
qed

text \<open>
  Where a line begins with two spans that are not bracketed groups, which a stray closing
  bracket between them brings about, line 109 reads the second of them as \<open>time\<close>: the
  spans then do not alternate, and the statement above does not cover the line.
\<close>

lemma parseTimestamp_two_leading_text_spans:
  "parseTimestamp sample_utils (js ''a]b[x]'') = \<lparr> p_time = Some (js ''b''), p_text = Some (js ''A'') \<rparr>"
  by (simp add: eval_parse sample_utils_def)

section \<open>Properties of \<open>breakdownLine\<close>\<close>

lemmas eval_breakdown = breakdownLine_def marker_def isDigit_def js_def parseInt_def

lemmas eval_marker = mkMarker_def digits_def marker_def isDigit_def js_def


lemma takeWhile_digits_stop:
  "\<not> isDigit x \<Longrightarrow> takeWhile isDigit (xs @ x # ys) = takeWhile isDigit xs"
  by (induction xs) simp_all

lemma dropWhile_digits_stop:
  "\<not> isDigit x \<Longrightarrow> dropWhile isDigit (xs @ x # ys) = dropWhile isDigit xs @ x # ys"
  by (induction xs) simp_all

lemma not_digit_paren: "\<not> isDigit 40" "\<not> isDigit 44" "\<not> isDigit 41"
  by (simp_all add: isDigit_def)

lemma marker_mkMarker:
  assumes "digits a" "digits b"
  shows "marker (mkMarker a b @ t) = Some (b, t)"
proof -
  from assms have a: "takeWhile isDigit a = a" "dropWhile isDigit a = []" "a \<noteq> []"
    and b: "takeWhile isDigit b = b" "dropWhile isDigit b = []" "b \<noteq> []"
    by (simp_all add: digits_def list_all_iff)
  have 1: "takeWhile isDigit (a @ 44 # b @ 41 # t) = a"
    using takeWhile_digits_stop [OF not_digit_paren(2), of a "b @ 41 # t"] a by simp
  have 2: "dropWhile isDigit (a @ 44 # b @ 41 # t) = 44 # b @ 41 # t"
    using dropWhile_digits_stop [OF not_digit_paren(2), of a "b @ 41 # t"] a by simp
  have 3: "takeWhile isDigit (b @ 41 # t) = b"
    using takeWhile_digits_stop [OF not_digit_paren(3), of b t] b by simp
  have 4: "dropWhile isDigit (b @ 41 # t) = 41 # t"
    using dropWhile_digits_stop [OF not_digit_paren(3), of b t] b by simp
  show ?thesis
    by (simp add: marker_def mkMarker_def 1 2 3 4 a b)
qed

text \<open>A match that starts before an opening parenthesis ends before it.\<close>

lemma marker_before_paren:
  assumes "s \<noteq> []"
  shows "marker (s @ 40 # t)
         = (case marker s of None \<Rightarrow> None | Some (cap, r) \<Rightarrow> Some (cap, r @ 40 # t))"
proof -
  from assms obtain c s1 where s: "s = c # s1" by (cases s) auto
  have tk: "takeWhile isDigit (xs @ 40 # t) = takeWhile isDigit xs" for xs
    by (rule takeWhile_digits_stop [OF not_digit_paren(1)])
  have dr: "dropWhile isDigit (xs @ 40 # t) = dropWhile isDigit xs @ 40 # t" for xs
    by (rule dropWhile_digits_stop [OF not_digit_paren(1)])
  obtain d1 where d1: "dropWhile isDigit s1 = d1" by simp
  show ?thesis
  proof (cases "c \<noteq> 40 \<or> takeWhile isDigit s1 = []")
    case True
    then show ?thesis by (auto simp: marker_def s tk)
  next
    case c1: False
    show ?thesis
    proof (cases d1)
      case Nil
      with c1 show ?thesis by (simp add: marker_def s tk dr d1)
    next
      case (Cons c2 s2)
      note e1 = Cons
      obtain d2 where d2: "dropWhile isDigit s2 = d2" by simp
      show ?thesis
      proof (cases "c2 \<noteq> 44 \<or> takeWhile isDigit s2 = []")
        case True
        with c1 e1 show ?thesis by (auto simp: marker_def s tk dr d1)
      next
        case c2: False
        show ?thesis
        proof (cases d2)
          case Nil
          with c1 e1 c2 show ?thesis by (simp add: marker_def s tk dr d1 d2)
        next
          case (Cons c3 s3)
          with c1 e1 c2 show ?thesis by (simp add: marker_def s tk dr d1 d2)
        qed
      qed
    qed
  qed
qed

lemma mkMarker_head: "mkMarker a b @ t = 40 # (a @ 44 # b @ 41 # t)"
  by (simp add: mkMarker_def)

text \<open>
  Whatever comes before a marker, \<open>split\<close> reaches the marker and captures its second number;
  the components before it (\<open>cs\<close>) do not depend on what follows the marker.
\<close>

lemma splitMarkers_reaches_marker:
  assumes "digits a" "digits b"
  shows "\<exists>cs. odd (length cs)
             \<and> (\<forall>t. splitMarkers acc (pre @ mkMarker a b @ t) = cs @ b # splitMarkers [] t)"
proof (induction "length pre" arbitrary: pre acc rule: less_induct)
  case less
  have here: "splitMarkers acc' (mkMarker a b @ t) = rev acc' # b # splitMarkers [] t" for acc' t
    using marker_mkMarker [OF assms, of t] by (simp add: mkMarker_head)
  show ?case
  proof (cases pre)
    case Nil
    have "odd (length [rev acc]) \<and> (\<forall>t. splitMarkers acc (pre @ mkMarker a b @ t) = [rev acc] @ b # splitMarkers [] t)"
      using here Nil by simp
    then show ?thesis by blast
  next
    case (Cons c p)
    have m: "marker ((c # p) @ mkMarker a b @ t)
             = (case marker (c # p) of None \<Rightarrow> None | Some (cap, r) \<Rightarrow> Some (cap, r @ mkMarker a b @ t))" for t
      using marker_before_paren [of "c # p" "a @ 44 # b @ 41 # t"]
      by (simp add: mkMarker_head split: option.splits)
    show ?thesis
    proof (cases "marker (c # p)")
      case None
      from less [of p "c # acc"] Cons obtain cs where
        cs: "odd (length cs)" "\<forall>t. splitMarkers (c # acc) (p @ mkMarker a b @ t) = cs @ b # splitMarkers [] t"
        by auto
      have "splitMarkers acc (pre @ mkMarker a b @ t) = cs @ b # splitMarkers [] t" for t
        using m [of t] None Cons cs(2) by simp
      with cs(1) show ?thesis by blast
    next
      case (Some capr)
      obtain cap r where capr: "capr = (cap, r)" by (cases capr)
      from marker_shorter Some capr have "length r < length (c # p)" by blast
      with less [of r "[]"] Cons obtain cs where
        cs: "odd (length cs)" "\<forall>t. splitMarkers [] (r @ mkMarker a b @ t) = cs @ b # splitMarkers [] t"
        by auto
      have "splitMarkers acc (pre @ mkMarker a b @ t) = (rev acc # cap # cs) @ b # splitMarkers [] t" for t
        using m [of t] Some capr Cons cs(2) by simp
      moreover from cs(1) have "odd (length (rev acc # cap # cs))" by simp
      ultimately show ?thesis by blast
    qed
  qed
qed

lemma splitMarkers_markerFree_end: "markerFree w \<Longrightarrow> splitMarkers acc w = [rev acc @ w]"
  by (induction w arbitrary: acc) simp_all

lemma splitMarkers_markerFree:
  assumes "digits c" "digits d"
  shows "markerFree w \<Longrightarrow> splitMarkers acc (w @ mkMarker c d @ t) = (rev acc @ w) # d # splitMarkers [] t"
proof (induction w arbitrary: acc)
  case Nil
  show ?case using marker_mkMarker [OF assms, of t] by (simp add: mkMarker_head)
next
  case (Cons x w)
  from Cons.prems have mf: "marker (x # w) = None" "markerFree w" by simp_all
  have "marker ((x # w) @ mkMarker c d @ t) = None"
    using marker_before_paren [of "x # w" "c @ 44 # d @ 41 # t"] mf(1) by (simp add: mkMarker_head)
  then have "splitMarkers acc ((x # w) @ mkMarker c d @ t) = splitMarkers (x # acc) (w @ mkMarker c d @ t)"
    by simp
  with Cons.IH [OF mf(2), of "x # acc"] show ?case by simp
qed

text \<open>
  The list of components has odd length and every capture in it is a non-empty run of
  digits: the loop of \<open>breakdownLine\<close> always finds the text after a capture, and
  \<open>parseInt\<close> always reads a number.
\<close>

lemma marker_capture_digits: "marker s = Some (cap, r) \<Longrightarrow> digits cap"
proof -
  assume "marker s = Some (cap, r)"
  then obtain s2 where "cap = takeWhile isDigit s2" "cap \<noteq> []"
    using marker_SomeD by blast
  then show ?thesis
    by (auto simp: digits_def list_all_iff dest: set_takeWhileD)
qed

lemma splitMarkers_odd: "odd (length (splitMarkers acc s))"
  by (induction acc s rule: splitMarkers.induct) (auto split: option.splits)

lemma breakdownLoop_append:
  "even (length xs) \<Longrightarrow> breakdownLoop (xs @ ys) = breakdownLoop xs @ breakdownLoop ys"
  by (induction xs rule: breakdownLoop.induct) simp_all

lemma breakdownLine_marker_first:
  assumes "digits c" "digits d"
  shows "breakdownLine (mkMarker c d @ post) = breakdownLoop (d # splitMarkers [] post)"
  using marker_mkMarker [OF assms, of post] by (simp add: breakdownLine_def mkMarker_head)

lemma splitMarkers_render:
  assumes "\<forall>(a, b, w)\<in>set items. digits a \<and> digits b \<and> markerFree w" and "markerFree w0"
  shows "splitMarkers acc (w0 @ render items) = (rev acc @ w0) # concat (map (\<lambda>(a, b, w). [b, w]) items)"
  using assms
proof (induction items arbitrary: acc w0)
  case Nil
  then show ?case by (simp add: render_def splitMarkers_markerFree_end)
next
  case (Cons it items)
  obtain a b w where it: "it = (a, b, w)" by (cases it)
  from Cons.prems(1) it have d: "digits a" "digits b" "markerFree w"
    and rest: "\<forall>(a, b, w)\<in>set items. digits a \<and> digits b \<and> markerFree w"
    by simp_all
  have "render (it # items) = mkMarker a b @ w @ render items"
    by (simp add: render_def it)
  then have "splitMarkers acc (w0 @ render (it # items))
             = (rev acc @ w0) # b # splitMarkers [] (w @ render items)"
    using splitMarkers_markerFree [OF d(1,2) Cons.prems(2), of acc "w @ render items"] by simp
  also have "splitMarkers [] (w @ render items) = w # concat (map (\<lambda>(a, b, w). [b, w]) items)"
    using Cons.IH [OF rest d(3), of "[]"] by simp
  finally show ?case by (simp add: it)
qed

lemma breakdownLoop_pairs:
  "breakdownLoop (concat (map (\<lambda>(a, b, w). [b, w]) items))
   = map (\<lambda>(a, b, w). \<lparr> word = w @ [32], w_time = parseInt b \<rparr>) (filter (\<lambda>(a, b, w). w \<noteq> [32]) items)"
  by (induction items) auto

lemma breakdownLine_render:
  assumes "\<forall>(a, b, w)\<in>set items. digits a \<and> digits b \<and> markerFree w"
  shows "breakdownLine (render items)
         = map (\<lambda>(a, b, w). \<lparr> word = w @ [32], w_time = parseInt b \<rparr>) (filter (\<lambda>(a, b, w). w \<noteq> [32]) items)"
  using splitMarkers_render [OF assms, of "[]" "[]"]
  by (simp add: breakdownLine_def breakdownLoop_pairs)

lemma filter_separated: "[32] \<notin> set ws \<Longrightarrow> filter (\<lambda>w. w \<noteq> [32]) (separated ws) = ws"
  by (induction ws rule: separated.induct) auto

lemma concat_separated:
  "ws \<noteq> [] \<Longrightarrow> concat (map (\<lambda>w. w @ [32]) ws) = concat (separated ws) @ [32]"
  by (induction ws rule: separated.induct) auto

text \<open>
  C4 as stated does not hold: the result has three tokens, and the time of the first
  is 508, not 0.
\<close>

theorem breakdownLine_example_counterexample:
  "breakdownLine (js ''(0,508)Don't(0,1) (0,151)want(0,1)'')
   \<noteq> [\<lparr> word = js ''Don't '', w_time = 0 \<rparr>, \<lparr> word = js ''want '', w_time = 151 \<rparr>]"
  by (simp add: eval_breakdown)

text \<open>
  C4, amended. On \<open>(0,508)Don't(0,1) (0,151)want(0,1)\<close> the result is the three tokens
  below: the time of a token is the second number of the marker before it (the group
  that the pattern of line 116 captures), the span that is one space is skipped, and
  the empty span after the last marker gives a token whose word is one space.
\<close>

theorem breakdownLine_example:
  "breakdownLine (js ''(0,508)Don't(0,1) (0,151)want(0,1)'')
   = [\<lparr> word = js ''Don't '', w_time = 508 \<rparr>, \<lparr> word = js ''want '', w_time = 151 \<rparr>,
      \<lparr> word = js '' '', w_time = 1 \<rparr>]"
  by (simp add: eval_breakdown)

text \<open>
  C10. Let a marker \<open>(a,b)\<close> be followed by a span \<open>w\<close> and a second marker, after any text
  \<open>pre\<close> and before any text \<open>post\<close>. The tokens are those of the text up to the first
  marker without the token of its (there empty) span, then one token for \<open>w\<close> with the
  captured number \<open>b\<close> as its time unless \<open>w\<close> is exactly one space, then the tokens from
  the second marker on. So the span is skipped only when it is the single space; and
  when the two markers are adjacent, the empty span gives the token whose word is one
  space and whose time is \<open>b\<close>.
\<close>

theorem span_skipped_only_if_single_space:
  assumes "digits a" "digits b" "digits c" "digits d" "markerFree w"
  shows "breakdownLine (pre @ mkMarker a b @ w @ mkMarker c d @ post)
         = butlast (breakdownLine (pre @ mkMarker a b))
           @ (if w = [32] then [] else [\<lparr> word = w @ [32], w_time = parseInt b \<rparr>])
           @ breakdownLine (mkMarker c d @ post)
       \<and> \<lparr> word = [32], w_time = parseInt b \<rparr>
           \<in> set (breakdownLine (pre @ mkMarker a b @ mkMarker c d @ post))"
proof -
  from splitMarkers_reaches_marker [OF assms(1,2), of "[]" pre] obtain cs where
    cs: "odd (length cs)" "\<And>t. splitMarkers [] (pre @ mkMarker a b @ t) = cs @ b # splitMarkers [] t"
    by blast
  from cs(1) obtain c0 cs' where cs': "cs = c0 # cs'" "even (length cs')"
    by (cases cs) auto
  have sp: "splitMarkers [] (v @ mkMarker c d @ post) = v # d # splitMarkers [] post" if "markerFree v" for v
    using splitMarkers_markerFree [OF assms(3,4) that, of "[]" post] by simp
  have tail: "breakdownLine (mkMarker c d @ post) = breakdownLoop (d # splitMarkers [] post)"
    by (rule breakdownLine_marker_first [OF assms(3,4)])
  have front: "breakdownLine (pre @ mkMarker a b) = breakdownLoop cs' @ [\<lparr> word = [32], w_time = parseInt b \<rparr>]"
    using cs(2) [of "[]"] cs' by (simp add: breakdownLine_def breakdownLoop_append)
  have gen: "breakdownLine (pre @ mkMarker a b @ v @ mkMarker c d @ post)
         = breakdownLoop cs'
           @ (if v = [32] then [] else [\<lparr> word = v @ [32], w_time = parseInt b \<rparr>])
           @ breakdownLoop (d # splitMarkers [] post)" if "markerFree v" for v
    using cs(2) [of "v @ mkMarker c d @ post"] cs' sp [OF that]
    by (simp add: breakdownLine_def breakdownLoop_append)
  have 1: "breakdownLine (pre @ mkMarker a b @ w @ mkMarker c d @ post)
         = butlast (breakdownLine (pre @ mkMarker a b))
           @ (if w = [32] then [] else [\<lparr> word = w @ [32], w_time = parseInt b \<rparr>])
           @ breakdownLine (mkMarker c d @ post)"
    using gen [OF assms(5)] by (simp add: front tail)
  have 2: "\<lparr> word = [32], w_time = parseInt b \<rparr>
           \<in> set (breakdownLine (pre @ mkMarker a b @ mkMarker c d @ post))"
    using gen [of "[]"] by simp
  from 1 2 show ?thesis by blast
qed

text \<open>At \<open>Oh(0,508)(0,1)want\<close>: the empty span between the two markers gives the token with word \<open>" "\<close> and time 508.\<close>

theorem span_skipped_only_if_single_space_witness:
  "\<lparr> word = js '' '', w_time = 508 \<rparr> \<in> set (breakdownLine (js ''Oh(0,508)(0,1)want''))"
proof -
  have d: "digits (js ''0'')" "digits (js ''508'')" "digits (js ''1'')"
    by (simp_all add: eval_marker)
  have mf: "markerFree []" by simp
  have t: "js ''Oh'' @ mkMarker (js ''0'') (js ''508'') @ mkMarker (js ''0'') (js ''1'') @ js ''want''
           = js ''Oh(0,508)(0,1)want''"
    by (simp add: eval_marker)
  have n: "parseInt (js ''508'') = 508" by (simp add: parseInt_def js_def)
  from span_skipped_only_if_single_space [OF d(1) d(2) d(1) d(3) mf, of "js ''Oh''" "js ''want''"]
  have "\<lparr> word = [32], w_time = parseInt (js ''508'') \<rparr>
        \<in> set (breakdownLine (js ''Oh'' @ mkMarker (js ''0'') (js ''508'') @ mkMarker (js ''0'') (js ''1'') @ js ''want''))"
    by blast
  then show ?thesis by (simp add: t n) (simp add: js_def)
qed

text \<open>
  C8. Let a karaoke text be made of markers, each followed by a span in which no marker
  occurs. Then the words of the tokens are, in order, the spans other than the single
  space, each with one space appended. In particular, when the spans are word spans
  (none of them the single space) with a single-space span between each two, the
  concatenation of the words is the text of the line without its markers, followed by
  the one space appended to the last word.
\<close>

theorem karaoke_round_trip:
  assumes "\<forall>(a, b, w)\<in>set items. digits a \<and> digits b \<and> markerFree w"
  shows "map word (breakdownLine (render items))
         = map (\<lambda>w. w @ [32]) (filter (\<lambda>w. w \<noteq> [32]) (map (\<lambda>(a, b, w). w) items))
       \<and> (map (\<lambda>(a, b, w). w) items = separated ws \<and> [32] \<notin> set ws \<and> ws \<noteq> []
            \<longrightarrow> concat (map word (breakdownLine (render items))) = concat (separated ws) @ [32])"
proof -
  have 1: "map word (breakdownLine (render items))
         = map (\<lambda>w. w @ [32]) (filter (\<lambda>w. w \<noteq> [32]) (map (\<lambda>(a, b, w). w) items))"
    unfolding breakdownLine_render [OF assms] by (induction items) auto
  have 2: "concat (map word (breakdownLine (render items))) = concat (separated ws) @ [32]"
    if "map (\<lambda>(a, b, w). w) items = separated ws" "[32] \<notin> set ws" "ws \<noteq> []"
    using that by (simp add: 1 filter_separated concat_separated)
  from 1 2 show ?thesis by blast
qed


text \<open>At \<open>(0,508)Don't(0,1) (0,151)want\<close>: the words concatenate to \<open>Don't want\<close> and a space.\<close>

theorem karaoke_round_trip_witness:
  "concat (map word (breakdownLine (js ''(0,508)Don't(0,1) (0,151)want''))) = js ''Don't want ''"
proof -
  let ?items = "[(js ''0'', js ''508'', js ''Don't''), (js ''0'', js ''1'', js '' ''),
                 (js ''0'', js ''151'', js ''want'')]"
  let ?ws = "[js ''Don't'', js ''want'']"
  have h: "\<forall>(a, b, w)\<in>set ?items. digits a \<and> digits b \<and> markerFree w"
    by (simp add: eval_marker)
  have r: "render ?items = js ''(0,508)Don't(0,1) (0,151)want''"
    by (simp add: render_def eval_marker)
  have s: "map (\<lambda>(a, b, w). w) ?items = separated ?ws \<and> [32] \<notin> set ?ws \<and> ?ws \<noteq> []"
    by (simp add: js_def)
  from karaoke_round_trip [OF h, of ?ws] s
  have "concat (map word (breakdownLine (render ?items))) = concat (separated ?ws) @ [32]"
    by blast
  then show ?thesis by (simp add: r) (simp add: js_def)
qed

section \<open>Properties of the extractors\<close>

lemmas eval_lines = linesOf_def trim_def isWhiteSpace_def
lemmas eval_credits = containCredits_def creditInfoRegExp_def creditInfo_def lit_def canonicalize_def

lemma filterTruthy_Nil_iff: "filterTruthy xs = [] \<longleftrightarrow> (\<forall>x\<in>set xs. x = None)"
  by (induction xs) (auto simp: filterTruthy_def List.map_filter_simps split: option.splits)

lemma syncedLoop_eq:
  "syncedLoop U n lines
   = (map (\<lambda>line. timedOfParsed (parseTimestamp U line)) lines,
      n \<or> (\<exists>line\<in>set lines. p_text (parseTimestamp U line) = Some noLyricsNotice))"
  by (induction lines arbitrary: n) (simp_all add: Let_def)

lemma unsyncedLoop_eq:
  "unsyncedLoop U n lines
   = (map (\<lambda>line. unsyncedOfParsed (parseTimestamp U line)) lines,
      n \<or> (\<exists>line\<in>set lines. p_text (parseTimestamp U line) = Some noLyricsNotice))"
  by (induction lines arbitrary: n) (simp_all add: Let_def)

lemma getSynced_eq:
  "getSynced U list =
     (case lyricOf lrc list of
        None \<Rightarrow> None
      | Some lyricStr \<Rightarrow>
          if lyricStr = [] then None
          else
            let lyrics = filterTruthy (map (\<lambda>line. timedOfParsed (parseTimestamp U line)) (linesOf lyricStr))
            in if lyrics = []
                  \<or> (\<exists>line\<in>set (linesOf lyricStr). p_text (parseTimestamp U line) = Some noLyricsNotice)
               then None else Some lyrics)"
  by (simp add: getSynced_def syncedLoop_eq Let_def split: option.splits)

lemma getUnsynced_eq:
  "getUnsynced U list =
     (case lyricOf lrc list of
        None \<Rightarrow> None
      | Some lyricStr \<Rightarrow>
          if lyricStr = [] then None
          else
            let lyrics = filterTruthy (map (\<lambda>line. unsyncedOfParsed (parseTimestamp U line)) (linesOf lyricStr))
            in if lyrics = []
                  \<or> (\<exists>line\<in>set (linesOf lyricStr). p_text (parseTimestamp U line) = Some noLyricsNotice)
               then None else Some lyrics)"
  by (simp add: getUnsynced_def unsyncedLoop_eq Let_def split: option.splits)

lemma parseTimestamp_empty: "parseTimestamp U [] = \<lparr> p_time = None, p_text = Some [] \<rparr>"
  by (simp add: parseTimestamp_def)

lemma containCredits_empty: "\<not> containCredits []"
  by (simp add: eval_credits js_def)

text \<open>
  C7. Whatever the payload, each of the four extractors returns \<open>null\<close> or a sequence
  with at least one line; none returns an empty sequence.
\<close>

theorem extractors_never_return_empty:
  "(getKaraoke U list = None \<or> (\<exists>ls. getKaraoke U list = Some ls \<and> ls \<noteq> []))
   \<and> (getSynced U list = None \<or> (\<exists>ls. getSynced U list = Some ls \<and> ls \<noteq> []))
   \<and> (getUnsynced U list = None \<or> (\<exists>ls. getUnsynced U list = Some ls \<and> ls \<noteq> []))
   \<and> (getTranslation U list = None \<or> (\<exists>ls. getTranslation U list = Some ls \<and> ls \<noteq> []))"
proof (intro conjI)
  show "getKaraoke U list = None \<or> (\<exists>ls. getKaraoke U list = Some ls \<and> ls \<noteq> [])"
    by (simp add: getKaraoke_def Let_def split: option.splits)
  show "getSynced U list = None \<or> (\<exists>ls. getSynced U list = Some ls \<and> ls \<noteq> [])"
    by (simp add: getSynced_eq Let_def split: option.splits)
  show "getUnsynced U list = None \<or> (\<exists>ls. getUnsynced U list = Some ls \<and> ls \<noteq> [])"
    by (simp add: getUnsynced_eq Let_def split: option.splits)
  show "getTranslation U list = None \<or> (\<exists>ls. getTranslation U list = Some ls \<and> ls \<noteq> [])"
    by (simp add: getTranslation_def Let_def split: option.splits)
qed

text \<open>At a block of credit lines and at a block with the instrumental notice.\<close>

theorem extractors_never_return_empty_witness:
  "(getKaraoke sample_utils creditPayload = None
      \<or> (\<exists>ls. getKaraoke sample_utils creditPayload = Some ls \<and> ls \<noteq> []))
   \<and> (getSynced sample_utils noticePayload = None
      \<or> (\<exists>ls. getSynced sample_utils noticePayload = Some ls \<and> ls \<noteq> []))"
  using extractors_never_return_empty [of sample_utils creditPayload]
    extractors_never_return_empty [of sample_utils noticePayload]
  by blast

text \<open>
  C3. If the \<open>lrc\<close> block has a line whose parsed text is the instrumental notice, then
  \<open>getSynced\<close> and \<open>getUnsynced\<close> both return \<open>null\<close>, whatever the other lines are.
\<close>

theorem notice_line_forces_null:
  assumes "lyricOf lrc list = Some lyricStr"
    and "\<exists>line\<in>set (linesOf lyricStr). p_text (parseTimestamp U line) = Some noLyricsNotice"
  shows "getSynced U list = None \<and> getUnsynced U list = None"
  using assms by (simp add: getSynced_eq getUnsynced_eq Let_def)

text \<open>
  At a block of two lines: the first alone gives a line of lyrics at 1000 ms, the second
  carries the notice.
\<close>

theorem notice_line_forces_null_witness:
  "lyricOf lrc noticePayload = Some noticeBlock
   \<and> (\<exists>line\<in>set (linesOf noticeBlock).
         p_text (parseTimestamp sample_utils line) = Some noLyricsNotice)
   \<and> timedOfParsed (parseTimestamp sample_utils (js ''[00:01]Hello''))
       = Some \<lparr> startTime = Fin 1000, l_text = js ''Hello'' \<rparr>
   \<and> getSynced sample_utils noticePayload = None
   \<and> getUnsynced sample_utils noticePayload = None"
proof -
  have h1: "lyricOf lrc noticePayload = Some noticeBlock"
    by (simp add: lyricOf_def noticePayload_def)
  have h2: "\<exists>line\<in>set (linesOf noticeBlock).
              p_text (parseTimestamp sample_utils line) = Some noLyricsNotice"
    by (simp add: noticeBlock_def noLyricsNotice_def eval_lines eval_parse sample_utils_def)
  have h3: "timedOfParsed (parseTimestamp sample_utils (js ''[00:01]Hello''))
       = Some \<lparr> startTime = Fin 1000, l_text = js ''Hello'' \<rparr>"
    by (simp add: eval_parse sample_utils_def timedOfParsed_def elemAt_def parseFloatOpt_def
        parseFloat_def signOf_def isDigit_def parseInt_def exponentPart_def eval_credits
        isWhiteSpace_def)
  from notice_line_forces_null [OF h1 h2] h1 h2 h3 show ?thesis by simp
qed

text \<open>
  C6. If the text of every non-empty line of a block is a credit line, then each
  extractor that reads the block (\<open>getKaraoke\<close> reads \<open>klyric\<close>, \<open>getSynced\<close> and
  \<open>getUnsynced\<close> read \<open>lrc\<close>, \<open>getTranslation\<close> reads \<open>tlyric\<close>) returns \<open>null\<close>.
\<close>

theorem credit_only_block_gives_null:
  assumes "\<forall>line\<in>set (linesOf lyricStr). line \<noteq> [] \<longrightarrow>
             (\<exists>text. p_text (parseTimestamp U line) = Some text \<and> containCredits text)"
  shows "(lyricOf klyric list = Some lyricStr \<longrightarrow> getKaraoke U list = None)
       \<and> (lyricOf lrc list = Some lyricStr \<longrightarrow> getSynced U list = None \<and> getUnsynced U list = None)
       \<and> (lyricOf tlyric list = Some lyricStr \<longrightarrow> getTranslation U list = None)"
proof -
  have k: "karaokeOfLine U line = None" if "line \<in> set (linesOf lyricStr)" for line
  proof (cases "line = []")
    case True
    then show ?thesis by (simp add: karaokeOfLine_def parseTimestamp_empty)
  next
    case False
    with assms that obtain t where "p_text (parseTimestamp U line) = Some t" "containCredits t"
      by blast
    then show ?thesis by (simp add: karaokeOfLine_def Let_def split: option.splits)
  qed
  have t: "timedOfParsed (parseTimestamp U line) = None" if "line \<in> set (linesOf lyricStr)" for line
  proof (cases "line = []")
    case True
    then show ?thesis by (simp add: timedOfParsed_def parseTimestamp_empty)
  next
    case False
    with assms that obtain t where "p_text (parseTimestamp U line) = Some t" "containCredits t"
      by blast
    then show ?thesis by (simp add: timedOfParsed_def Let_def split: option.splits)
  qed
  have u: "unsyncedOfParsed (parseTimestamp U line) = None" if "line \<in> set (linesOf lyricStr)" for line
  proof (cases "line = []")
    case True
    then show ?thesis by (simp add: unsyncedOfParsed_def parseTimestamp_empty)
  next
    case False
    with assms that obtain t where "p_text (parseTimestamp U line) = Some t" "containCredits t"
      by blast
    then show ?thesis by (simp add: unsyncedOfParsed_def)
  qed
  have fk: "filterTruthy (map (karaokeOfLine U) (linesOf lyricStr)) = []"
    using k by (simp add: filterTruthy_Nil_iff)
  have ft: "filterTruthy (map (\<lambda>line. timedOfParsed (parseTimestamp U line)) (linesOf lyricStr)) = []"
    using t by (simp add: filterTruthy_Nil_iff)
  have fu: "filterTruthy (map (\<lambda>line. unsyncedOfParsed (parseTimestamp U line)) (linesOf lyricStr)) = []"
    using u by (simp add: filterTruthy_Nil_iff)
  show ?thesis
  proof (intro conjI impI)
    assume "lyricOf klyric list = Some lyricStr"
    then show "getKaraoke U list = None" by (simp add: getKaraoke_def fk)
  next
    assume "lyricOf lrc list = Some lyricStr"
    then show "getSynced U list = None" by (simp add: getSynced_eq ft)
  next
    assume "lyricOf lrc list = Some lyricStr"
    then show "getUnsynced U list = None" by (simp add: getUnsynced_eq fu)
  next
    assume "lyricOf tlyric list = Some lyricStr"
    then show "getTranslation U list = None" by (simp add: getTranslation_def ft)
  qed
qed


text \<open>
  At a block of two lines with time tags, whose texts are U+4F5C U+8BCD U+FF1A \<open>Someone\<close>
  and \<open>Mixed by: Someone\<close>, read by all four extractors.
\<close>

theorem credit_only_block_gives_null_witness:
  "linesOf creditBlock = [js ''[00:01]'' @ creditText1, js ''[00:02]'' @ creditText2]
   \<and> p_text (parseTimestamp sample_utils (js ''[00:01]'' @ creditText1)) = Some creditText1
   \<and> p_text (parseTimestamp sample_utils (js ''[00:02]'' @ creditText2)) = Some creditText2
   \<and> containCredits creditText1
   \<and> containCredits creditText2
   \<and> getKaraoke sample_utils creditPayload = None
   \<and> getSynced sample_utils creditPayload = None
   \<and> getUnsynced sample_utils creditPayload = None
   \<and> getTranslation sample_utils creditPayload = None"
proof -
  have c1: "linesOf creditBlock = [js ''[00:01]'' @ creditText1, js ''[00:02]'' @ creditText2]"
    by (simp add: creditBlock_def creditText1_def creditText2_def eval_lines js_def)
  have c2: "parseTimestamp sample_utils (js ''[00:01]'' @ creditText1)
            = \<lparr> p_time = Some (js ''00:01''), p_text = Some creditText1 \<rparr>"
    by (simp add: creditText1_def eval_parse sample_utils_def)
  have c3: "parseTimestamp sample_utils (js ''[00:02]'' @ creditText2)
            = \<lparr> p_time = Some (js ''00:02''), p_text = Some creditText2 \<rparr>"
    by (simp add: creditText2_def eval_parse sample_utils_def)
  have c4: "containCredits creditText1"
    by (simp add: creditText1_def eval_credits isWhiteSpace_def lineTerminator_def js_def)
  have c5: "containCredits creditText2"
    by (simp add: creditText2_def eval_credits isWhiteSpace_def lineTerminator_def js_def)
  have h: "\<forall>line\<in>set (linesOf creditBlock). line \<noteq> [] \<longrightarrow>
      (\<exists>text. p_text (parseTimestamp sample_utils line) = Some text \<and> containCredits text)"
    by (simp add: c1 c2 c3 c4 c5)
  have l: "lyricOf klyric creditPayload = Some creditBlock" "lyricOf lrc creditPayload = Some creditBlock"
    "lyricOf tlyric creditPayload = Some creditBlock"
    by (simp_all add: lyricOf_def creditPayload_def)
  from credit_only_block_gives_null [OF h, of creditPayload] l c1 c2 c3 c4 c5 show ?thesis by simp
qed

end
